theory Spec2Isabelle
  imports Complex_Main "HOL-Library.Sublist"
begin

section \<open>The price-token engine of \<open>src/lib/priceTokens.ts\<close>\<close>

text \<open>
  The engine is a set of pure functions from a text, a quote and a configuration to a
  text. This theory embeds them one by one, in the order of the source file, and then
  proves the properties of the specification about the embedding.

  Conventions of the embedding.
  \<^item> A JavaScript \<open>number\<close> is a value of the datatype \<open>number\<close> below: a finite
    value, negative zero, the two infinities, or NaN. The special values follow
    IEEE 754 as ECMAScript prescribes. Arithmetic on finite values is exact (a finite
    value is a real number): rounding to 53 bits, overflow and underflow of finite
    results are not modelled.
  \<^item> A JavaScript string is a \<open>string\<close>. ASCII characters are themselves; the two
    non-ASCII characters the engine emits (the en dash and the infinity sign) are
    written as their UTF-8 bytes. The token pattern is ASCII only, so scanning bytes
    and scanning UTF-16 code units find the same occurrences.
  \<^item> No function of the source file throws, so no function of the embedding
    returns an error value: every one is total.
\<close>

subsection \<open>Numbers\<close>

datatype number = Fin real | NegZero | PosInf | NegInf | NaN

text \<open>\<open>Fin 0\<close> is positive zero. \<open>NegZero\<close> is kept apart because the formatter prints
  its sign.\<close>

fun is_inf :: "number \<Rightarrow> bool" where
  "is_inf PosInf = True"
| "is_inf NegInf = True"
| "is_inf _ = False"

fun is_zero :: "number \<Rightarrow> bool" where
  "is_zero (Fin r) = (r = 0)"
| "is_zero NegZero = True"
| "is_zero _ = False"

fun is_neg :: "number \<Rightarrow> bool" where
  "is_neg (Fin r) = (r < 0)"
| "is_neg NegZero = True"
| "is_neg NegInf = True"
| "is_neg _ = False"

fun is_finite :: "number \<Rightarrow> bool" where
  "is_finite (Fin r) = True"
| "is_finite NegZero = True"
| "is_finite _ = False"

text \<open>The real value of a finite number (both zeros are 0).\<close>

fun val :: "number \<Rightarrow> real" where
  "val (Fin r) = r"
| "val _ = 0"

definition signed_zero :: "bool \<Rightarrow> number" where
  "signed_zero neg = (if neg then NegZero else Fin 0)"

definition signed_inf :: "bool \<Rightarrow> number" where
  "signed_inf neg = (if neg then NegInf else PosInf)"

text \<open>A finite product or quotient: a zero result takes the sign the operands give it.\<close>

definition mk_finite :: "bool \<Rightarrow> real \<Rightarrow> number" where
  "mk_finite neg r = (if r = 0 then signed_zero neg else Fin r)"

text \<open>\<open>a * b\<close>\<close>

definition num_mul :: "number \<Rightarrow> number \<Rightarrow> number" where
  "num_mul a b =
     (if a = NaN \<or> b = NaN then NaN
      else if is_inf a \<or> is_inf b then
        (if is_zero a \<or> is_zero b then NaN else signed_inf (is_neg a \<noteq> is_neg b))
      else mk_finite (is_neg a \<noteq> is_neg b) (val a * val b))"

text \<open>\<open>a / b\<close>\<close>

definition num_div :: "number \<Rightarrow> number \<Rightarrow> number" where
  "num_div a b =
     (if a = NaN \<or> b = NaN then NaN
      else if is_inf a then (if is_inf b then NaN else signed_inf (is_neg a \<noteq> is_neg b))
      else if is_inf b then signed_zero (is_neg a \<noteq> is_neg b)
      else if is_zero b then
        (if is_zero a then NaN else signed_inf (is_neg a \<noteq> is_neg b))
      else mk_finite (is_neg a \<noteq> is_neg b) (val a / val b))"

text \<open>\<open>a + b\<close>\<close>

definition num_add :: "number \<Rightarrow> number \<Rightarrow> number" where
  "num_add a b =
     (if a = NaN \<or> b = NaN then NaN
      else if is_inf a then (if is_inf b \<and> a \<noteq> b then NaN else a)
      else if is_inf b then b
      else if a = NegZero \<and> b = NegZero then NegZero
      else Fin (val a + val b))"

fun num_neg :: "number \<Rightarrow> number" where
  "num_neg (Fin r) = (if r = 0 then NegZero else Fin (- r))"
| "num_neg NegZero = Fin 0"
| "num_neg PosInf = NegInf"
| "num_neg NegInf = PosInf"
| "num_neg NaN = NaN"

text \<open>\<open>a - b\<close>\<close>

definition num_sub :: "number \<Rightarrow> number \<Rightarrow> number" where
  "num_sub a b = num_add a (num_neg b)"

text \<open>\<open>a <= b\<close>: false as soon as one side is NaN.\<close>

definition num_le :: "number \<Rightarrow> number \<Rightarrow> bool" where
  "num_le a b =
     (a \<noteq> NaN \<and> b \<noteq> NaN \<and>
      (a = NegInf \<or> b = PosInf \<or> (is_finite a \<and> is_finite b \<and> val a \<le> val b)))"

text \<open>\<open>Math.round\<close>: the nearest integer, a half going towards \<open>+\<infinity>\<close>; an argument in
  \<open>[-0.5, 0)\<close> and negative zero give negative zero.\<close>

fun math_round :: "number \<Rightarrow> number" where
  "math_round (Fin r) =
     (if - (1 / 2) \<le> r \<and> r < 0 then NegZero else Fin (of_int \<lfloor>r + 1 / 2\<rfloor>))"
| "math_round x = x"

subsection \<open>Configuration and quote\<close>

text \<open>\<open>PriceTokenConfig\<close>: both fields are optional in the source; \<open>None\<close> is an omitted
  field. A field that is present but \<open>undefined\<close> behaves in the arithmetic as NaN, so
  \<open>Some NaN\<close> stands for it.\<close>

record PriceTokenConfig =
  premiumBandPercent :: "number option"
  roundingIncrement :: "number option"

text \<open>\<open>DEFAULT_CONFIG\<close>, as the pair \<open>(premiumBandPercent, roundingIncrement)\<close>.\<close>

definition DEFAULT_CONFIG :: "number \<times> number" where
  "DEFAULT_CONFIG = (Fin 5, Fin 100)"

text \<open>The destructuring \<open>{ ...DEFAULT_CONFIG, ...config }\<close>: a supplied field overrides
  the default.\<close>

definition merge_config :: "PriceTokenConfig \<Rightarrow> number \<times> number" where
  "merge_config config =
     ((case premiumBandPercent config of None \<Rightarrow> fst DEFAULT_CONFIG | Some v \<Rightarrow> v),
      (case roundingIncrement config of None \<Rightarrow> snd DEFAULT_CONFIG | Some v \<Rightarrow> v))"

text \<open>Modelled from the spec: the type \<open>ProductSpotSummary\<close> is declared in
  \<open>lib/monexSpot\<close>, which is not among the sources. The specification gives the quote as
  \<open>{ ask: number }\<close>, and \<open>ask\<close> is the only field the engine reads; any further field
  lives in the record's extension.\<close>

record ProductSpotSummary =
  ask :: number

subsection \<open>Rounding\<close>

text \<open>\<open>Math.round(value / increment) * increment\<close>\<close>

definition roundToNearest :: "number \<Rightarrow> number \<Rightarrow> number" where
  "roundToNearest v increment = num_mul (math_round (num_div v increment)) increment"

subsection \<open>Formatting\<close>

text \<open>
  \<open>formatPrice\<close> delegates to the platform's \<open>Intl.NumberFormat("en-US", {style:
  "currency", currency: "USD", minimumFractionDigits: 0, maximumFractionDigits: 0})\<close>.
  The formatter is not code of the repository; \<open>format_currency_USD\<close> is its behaviour
  under ECMA-402 and the CLDR data of \<open>en-US\<close>: an optional minus sign, the dollar
  sign, then the magnitude rounded to an integer (a half away from zero) in decimal
  digits grouped by three with commas. NaN prints as \<open>NaN\<close> and an infinity as the
  infinity sign.
\<close>

definition en_dash :: string where
  "en_dash = [CHR 0xE2, CHR 0x80, CHR 0x93]"

definition infinity_sign :: string where
  "infinity_sign = [CHR 0xE2, CHR 0x88, CHR 0x9E]"

fun digits :: "nat \<Rightarrow> string" where
  "digits n =
     (if n < 10 then [''0123456789'' ! n]
      else digits (n div 10) @ [''0123456789'' ! (n mod 10)])"

declare digits.simps [simp del]

text \<open>Grouping works on the reversed digit string: a comma after every third digit
  that still has a digit behind it.\<close>

fun group3 :: "string \<Rightarrow> string" where
  "group3 (a # b # c # d # rest) = a # b # c # CHR '','' # group3 (d # rest)"
| "group3 xs = xs"

definition grouped :: "nat \<Rightarrow> string" where
  "grouped n = rev (group3 (rev (digits n)))"

fun magnitude :: "number \<Rightarrow> string" where
  "magnitude (Fin r) = grouped (nat \<lfloor>\<bar>r\<bar> + 1 / 2\<rfloor>)"
| "magnitude NegZero = ''0''"
| "magnitude PosInf = infinity_sign"
| "magnitude NegInf = infinity_sign"
| "magnitude NaN = ''NaN''"

definition format_currency_USD :: "number \<Rightarrow> string" where
  "format_currency_USD x = (if is_neg x then ''-'' else []) @ ''$'' @ magnitude x"

text \<open>\<open>formatPrice(value, prefix = "~")\<close>: the callers that omit the prefix pass \<open>''~''\<close>
  here.\<close>

definition formatPrice :: "number \<Rightarrow> string \<Rightarrow> string" where
  "formatPrice v pre = pre @ format_currency_USD v"

text \<open>\<open>s.replace(pat, rep)\<close> with a string pattern: only the first occurrence is
  replaced.\<close>

fun string_replace :: "string \<Rightarrow> string \<Rightarrow> string \<Rightarrow> string" where
  "string_replace pat rep [] = (if pat = [] then rep else [])"
| "string_replace pat rep (c # cs) =
     (if prefix pat (c # cs) then rep @ drop (length pat) (c # cs)
      else c # string_replace pat rep cs)"

subsection \<open>Resolving one token\<close>

text \<open>The eight identifiers of \<open>PriceTokenType\<close>, in the order of the alternatives of
  \<open>TOKEN_PATTERN\<close>. At run time a token type is a string, and \<open>resolveToken\<close> has a
  \<open>default\<close> branch for any other string, so the embedding keeps strings.\<close>

definition token_names :: "string list" where
  "token_names =
     [''CAPITAL_REQUIREMENT'', ''CAPITAL_REQUIREMENT_RANGE'', ''CAPITAL_REQUIREMENT_PLUS'',
      ''LIQUIDITY_THRESHOLD'', ''BAR_PRICE'', ''SPOT_PRICE'', ''ONE_OZ_BAR_RANGE'',
      ''HUNDRED_OZ_BAR_RANGE'']"

text \<open>\<open>askPrice / 1000 / 1.01\<close>\<close>

definition estimatedSpotPerOz :: "number \<Rightarrow> number" where
  "estimatedSpotPerOz askPrice = num_div (num_div askPrice (Fin 1000)) (Fin 1.01)"

text \<open>The pairs \<open>(low, high)\<close> that the three range branches compute before they
  format them.\<close>

definition capital_requirement_range_bounds :: "number \<Rightarrow> number \<Rightarrow> number \<Rightarrow> number \<times> number" where
  "capital_requirement_range_bounds askPrice band increment =
     (roundToNearest (num_mul askPrice (num_sub (Fin 1) (num_div band (Fin 100)))) increment,
      roundToNearest (num_mul askPrice (num_add (Fin 1) (num_div band (Fin 100)))) increment)"

definition one_oz_bar_range_bounds :: "number \<Rightarrow> number \<times> number" where
  "one_oz_bar_range_bounds spot =
     (roundToNearest (num_mul spot (Fin 1.10)) (Fin 1),
      roundToNearest (num_mul spot (Fin 1.33)) (Fin 1))"

definition hundred_oz_bar_range_bounds :: "number \<Rightarrow> number \<times> number" where
  "hundred_oz_bar_range_bounds spot =
     (roundToNearest (num_mul (num_mul spot (Fin 100)) (Fin 1.02)) (Fin 100),
      roundToNearest (num_mul (num_mul spot (Fin 100)) (Fin 1.04)) (Fin 100))"

definition resolveToken :: "string \<Rightarrow> ProductSpotSummary option \<Rightarrow> PriceTokenConfig \<Rightarrow> string" where
  "resolveToken tokenType priceData config =
     (let (band, increment) = merge_config config in
      case priceData of
        None \<Rightarrow> ''current market price''
      | Some p \<Rightarrow>
          if num_le (ask p) (Fin 0) then ''current market price''
          else
            let askPrice = ask p;
                roundedAsk = roundToNearest askPrice increment;
                spot = estimatedSpotPerOz askPrice
            in
              if tokenType = ''CAPITAL_REQUIREMENT'' then formatPrice roundedAsk ''~''
              else if tokenType = ''CAPITAL_REQUIREMENT_RANGE'' then
                (let (lowBound, highBound) = capital_requirement_range_bounds askPrice band increment
                 in formatPrice lowBound ''~'' @ en_dash @
                    string_replace ''~'' [] (formatPrice highBound ''~''))
              else if tokenType = ''CAPITAL_REQUIREMENT_PLUS'' \<or> tokenType = ''LIQUIDITY_THRESHOLD'' then
                formatPrice roundedAsk ''~'' @ ''+''
              else if tokenType = ''BAR_PRICE'' then formatPrice roundedAsk []
              else if tokenType = ''SPOT_PRICE'' then
                formatPrice (roundToNearest spot (Fin 1)) ''~''
              else if tokenType = ''ONE_OZ_BAR_RANGE'' then
                (let (lowPrice, highPrice) = one_oz_bar_range_bounds spot
                 in formatPrice lowPrice [] @ en_dash @
                    string_replace ''$'' [] (formatPrice highPrice []))
              else if tokenType = ''HUNDRED_OZ_BAR_RANGE'' then
                (let (lowPrice, highPrice) = hundred_oz_bar_range_bounds spot
                 in formatPrice lowPrice [] @ en_dash @
                    string_replace ''$'' [] (formatPrice highPrice []))
              else ''current market price'')"

subsection \<open>Scanning a text for tokens\<close>

text \<open>
  \<open>TOKEN_PATTERN\<close> is \<open>{{\<close>, one of the eight identifiers, \<open>}}\<close>. A match attempt at the
  head of a text tries the alternatives in their order and backtracks to the next one
  when the closing braces do not follow; it returns the captured identifier and the
  text behind the match.
\<close>

fun try_alternatives :: "string list \<Rightarrow> string \<Rightarrow> (string \<times> string) option" where
  "try_alternatives [] s = None"
| "try_alternatives (n # ns) s =
     (if prefix (n @ ''}}'') s then Some (n, drop (length n + 2) s)
      else try_alternatives ns s)"

definition match_here :: "string \<Rightarrow> (string \<times> string) option" where
  "match_here s =
     (if prefix ''{{'' s then try_alternatives token_names (drop 2 s) else None)"

text \<open>One \<open>exec\<close> of the global pattern on the text from \<open>lastIndex\<close> on: the leftmost
  match, as the text skipped before it, the captured identifier and the text behind
  it; \<open>None\<close> when there is no match.\<close>

fun regex_exec :: "string \<Rightarrow> (string \<times> string \<times> string) option" where
  "regex_exec [] = None"
| "regex_exec (c # cs) =
     (case match_here (c # cs) of
        Some (g, rest) \<Rightarrow> Some ([], g, rest)
      | None \<Rightarrow>
          (case regex_exec cs of
             None \<Rightarrow> None
           | Some (skipped, g, rest) \<Rightarrow> Some (c # skipped, g, rest)))"

text \<open>
  The loop \<open>while ((match = pattern.exec(text)) !== null)\<close> over a global pattern:
  each round resumes behind the previous match and hands the skipped text and the
  captured identifier to \<open>step\<close>. It returns the accumulator and the text behind the
  last match. \<open>String.prototype.replace\<close> with a global pattern runs the same loop,
  after resetting \<open>lastIndex\<close> to 0.
\<close>

function exec_loop :: "('a \<Rightarrow> string \<Rightarrow> string \<Rightarrow> 'a) \<Rightarrow> string \<Rightarrow> 'a \<Rightarrow> 'a \<times> string" where
  "exec_loop step text acc =
     (case regex_exec text of
        None \<Rightarrow> (acc, text)
      | Some (skipped, g, rest) \<Rightarrow> exec_loop step rest (step acc skipped g))"
  by pat_completeness auto
termination
proof (relation "measure (\<lambda>(step, text, acc). length text)")
  show "wf (measure (\<lambda>(step :: 'a \<Rightarrow> string \<Rightarrow> string \<Rightarrow> 'a, text :: string, acc :: 'a). length text))"
    by simp
next
  fix step :: "'a \<Rightarrow> string \<Rightarrow> string \<Rightarrow> 'a" and input :: string and acc :: "'a"
    and x2 :: "string \<times> string \<times> string" and skipped :: string
    and y :: "string \<times> string" and g rest :: string
  assume ex: "regex_exec input = Some x2" and x2: "(skipped, y) = x2" and y: "(g, rest) = y"
  have alt: "length r \<le> length s" if "try_alternatives ns s = Some (n, r)" for ns s n r
    using that by (induction ns) (auto split: if_splits)
  have here: "length r < length s" if "match_here s = Some (n, r)" for s n r
  proof -
    from that have p: "prefix ''{{'' s" and t: "try_alternatives token_names (drop 2 s) = Some (n, r)"
      by (auto simp: match_here_def split: if_splits)
    from p have "2 \<le> length s" by (auto simp: prefix_def)
    with alt [OF t] show ?thesis by simp
  qed
  have shorter: "length r < length t" if "regex_exec t = Some (s, n, r)" for t s n r
    using that
  proof (induction t arbitrary: s)
    case Nil
    then show ?case by simp
  next
    case (Cons c cs)
    show ?case
    proof (cases "match_here (c # cs)")
      case None
      with Cons.prems obtain s' where "regex_exec cs = Some (s', n, r)"
        by (auto split: option.splits)
      from Cons.IH [OF this] show ?thesis by simp
    next
      case (Some a)
      with Cons.prems have "match_here (c # cs) = Some (n, r)"
        by (cases a) auto
      from here [OF this] show ?thesis .
    qed
  qed
  from ex x2 y have "regex_exec input = Some (skipped, g, rest)" by simp
  from shorter [OF this]
  show "((step, rest, step acc skipped g), (step, input, acc)) \<in> measure (\<lambda>(step, text, acc). length text)"
    by simp
qed

declare exec_loop.simps [simp del]

subsection \<open>The exported operations on texts\<close>

text \<open>\<open>text.replace(TOKEN_PATTERN, (match, tokenType) => resolveToken(tokenType,
  priceData, config))\<close>: the result is the skipped texts and the callback's values in
  the order of the matches, then the text behind the last match.\<close>

definition replaceTokens :: "string \<Rightarrow> ProductSpotSummary option \<Rightarrow> PriceTokenConfig \<Rightarrow> string" where
  "replaceTokens text priceData config =
     (let (out, remaining) =
        exec_loop (\<lambda>out skipped tokenType. out @ skipped @ resolveToken tokenType priceData config)
          text []
      in out @ remaining)"

text \<open>\<open>TOKEN_PATTERN.test(text)\<close> on the shared global pattern reads and writes its
  \<open>lastIndex\<close>: the search starts there, a match leaves the index behind the match,
  a failure leaves 0.\<close>

definition regex_test :: "nat \<Rightarrow> string \<Rightarrow> bool \<times> nat" where
  "regex_test lastIndex text =
     (if length text < lastIndex then (False, 0)
      else case regex_exec (drop lastIndex text) of
             None \<Rightarrow> (False, 0)
           | Some (skipped, g, rest) \<Rightarrow> (True, length text - length rest))"

text \<open>\<open>hasTokens\<close> takes the \<open>lastIndex\<close> it finds and returns the answer with the
  \<open>lastIndex\<close> it leaves; its first statement overwrites the index with 0.\<close>

definition hasTokens :: "nat \<Rightarrow> string \<Rightarrow> bool \<times> nat" where
  "hasTokens lastIndex text = regex_test 0 text"

text \<open>\<open>findTokens\<close> runs the loop on a fresh copy of the pattern and pushes each captured
  identifier.\<close>

definition findTokens :: "string \<Rightarrow> string list" where
  "findTokens text = fst (exec_loop (\<lambda>tokens skipped g. tokens @ [g]) text [])"

section \<open>The vocabulary of the specification\<close>

text \<open>
  The specification speaks of the well-formed occurrences of a token in a text. These
  definitions follow its words and do not look at the scanner: an occurrence of the
  identifier \<open>n\<close> at position \<open>i\<close> is the text \<open>{{n}}\<close> starting at \<open>i\<close>.
\<close>

definition token_text :: "string \<Rightarrow> string" where
  "token_text n = ''{{'' @ n @ ''}}''"

text \<open>The recognized identifiers that have an occurrence starting at the head of \<open>s\<close>.\<close>

definition occurrences_here :: "string \<Rightarrow> string list" where
  "occurrences_here s = filter (\<lambda>n. prefix (token_text n) s) token_names"

text \<open>The identifiers of all occurrences in a text, by their start position.\<close>

definition tokens_by_position :: "string \<Rightarrow> string list" where
  "tokens_by_position text =
     concat (map (\<lambda>i. occurrences_here (drop i text)) [0..<length text])"

definition token_free :: "string \<Rightarrow> bool" where
  "token_free text = (tokens_by_position text = [])"

text \<open>
  A text cut into its occurrences and the literal stretches around them: the literal
  before the first occurrence, then each occurrence with the literal behind it.
  \<open>source_text\<close> is the text so cut, \<open>substituted_text\<close> the same text with \<open>f n\<close> in
  place of each occurrence of \<open>n\<close>, and \<open>well_cut\<close> says that the pieces are what they
  are called: recognized identifiers, and literals with no occurrence in them.
\<close>

definition source_text :: "string \<Rightarrow> (string \<times> string) list \<Rightarrow> string" where
  "source_text l0 ps = l0 @ concat (map (\<lambda>(n, l). token_text n @ l) ps)"

definition substituted_text :: "(string \<Rightarrow> string) \<Rightarrow> string \<Rightarrow> (string \<times> string) list \<Rightarrow> string" where
  "substituted_text f l0 ps = l0 @ concat (map (\<lambda>(n, l). f n @ l) ps)"

definition well_cut :: "string \<Rightarrow> (string \<times> string) list \<Rightarrow> bool" where
  "well_cut l0 ps =
     (token_free l0 \<and> list_all (\<lambda>(n, l). n \<in> set token_names \<and> token_free l) ps)"

text \<open>A string with no brace character in it.\<close>

definition no_braces :: "string \<Rightarrow> bool" where
  "no_braces s = (CHR ''{'' \<notin> set s \<and> CHR ''}'' \<notin> set s)"

section \<open>Properties\<close>

lemmas num_defs =
  num_mul_def num_div_def num_add_def num_sub_def num_le_def
  mk_finite_def signed_zero_def signed_inf_def roundToNearest_def

lemmas resolve_defs =
  resolveToken_def merge_config_def DEFAULT_CONFIG_def
  estimatedSpotPerOz_def capital_requirement_range_bounds_def
  one_oz_bar_range_bounds_def hundred_oz_bar_range_bounds_def formatPrice_def
  format_currency_USD_def grouped_def

subsection \<open>Facts about the number operations\<close>


lemma num_mul_finite:
  "is_finite x \<Longrightarrow> is_finite y \<Longrightarrow>
   is_finite (num_mul x y) \<and> val (num_mul x y) = val x * val y"
  by (cases x; cases y) (auto simp: num_defs)

lemma num_div_finite:
  "is_finite x \<Longrightarrow> is_finite y \<Longrightarrow> val y \<noteq> 0 \<Longrightarrow>
   is_finite (num_div x y) \<and> val (num_div x y) = val x / val y"
  by (cases x; cases y) (auto simp: num_defs)





subsection \<open>Facts about the formatter\<close>

lemma format_currency_USD_head:
  "format_currency_USD x = CHR ''$'' # magnitude x \<or>
   format_currency_USD x = CHR ''-'' # CHR ''$'' # magnitude x"
  by (simp add: format_currency_USD_def)

lemma formatPrice_tilde: "formatPrice x ''~'' = CHR ''~'' # format_currency_USD x"
  by (simp add: formatPrice_def)

lemma formatPrice_empty: "formatPrice x [] = format_currency_USD x"
  by (simp add: formatPrice_def)

lemma format_currency_USD_not_fallback:
  "format_currency_USD x @ s \<noteq> ''current market price''"
  using format_currency_USD_head [of x] by auto

text \<open>No brace in anything the formatter prints.\<close>

lemma no_braces_append [simp]: "no_braces (a @ b) = (no_braces a \<and> no_braces b)"
  by (auto simp: no_braces_def)

lemma no_braces_digit: "n < 10 \<Longrightarrow> no_braces [''0123456789'' ! n]"
proof -
  assume "n < 10"
  then have "''0123456789'' ! n \<in> set ''0123456789''" by (intro nth_mem) simp
  then show ?thesis by (auto simp: no_braces_def)
qed

lemma no_braces_digits: "no_braces (digits n)"
proof (induction n rule: digits.induct)
  case (1 n)
  show ?case
  proof (cases "n < 10")
    case True
    then show ?thesis using no_braces_digit [of n] by (subst digits.simps) simp
  next
    case False
    have "n mod 10 < 10" by simp
    from no_braces_digit [OF this] "1.IH" [OF False] False
    show ?thesis by (subst digits.simps) simp
  qed
qed

lemma no_braces_group3: "no_braces xs \<Longrightarrow> no_braces (group3 xs)"
  by (induction xs rule: group3.induct) (auto simp: no_braces_def)

lemma no_braces_grouped: "no_braces (grouped n)"
  using no_braces_group3 [of "rev (digits n)"] no_braces_digits [of n]
  by (simp add: grouped_def no_braces_def)

lemma no_braces_magnitude: "no_braces (magnitude x)"
  by (cases x) (simp_all add: no_braces_grouped, simp_all add: no_braces_def infinity_sign_def)

lemma no_braces_format_currency_USD: "no_braces (format_currency_USD x)"
  using no_braces_magnitude [of x] by (simp add: format_currency_USD_def, simp add: no_braces_def)

lemma no_braces_string_replace: "no_braces s \<Longrightarrow> no_braces (string_replace pat [] s)"
  by (induction s) (auto simp: no_braces_def dest: in_set_dropD)

lemma no_braces_formatPrice: "no_braces pre \<Longrightarrow> no_braces (formatPrice x pre)"
  using no_braces_format_currency_USD [of x] by (simp add: formatPrice_def)

lemma no_braces_resolveToken: "no_braces (resolveToken tokenType priceData config)"
proof -
  have t: "no_braces ''~''" and e: "no_braces []"
    and d: "no_braces en_dash" and pl: "no_braces ''+''" and f: "no_braces ''current market price''"
    by (simp_all add: no_braces_def en_dash_def)
  note fp = no_braces_formatPrice [OF t] no_braces_formatPrice [OF e]
  note rp = no_braces_string_replace [OF fp(1)] no_braces_string_replace [OF fp(2)]
  show ?thesis
    unfolding resolveToken_def Let_def
    using fp rp d pl f
    by (simp split: prod.splits option.splits)
qed

subsection \<open>Facts about the resolver\<close>

lemma token_names_cases:
  "t \<in> set token_names \<longleftrightarrow>
     t = ''CAPITAL_REQUIREMENT'' \<or> t = ''CAPITAL_REQUIREMENT_RANGE'' \<or>
     t = ''CAPITAL_REQUIREMENT_PLUS'' \<or> t = ''LIQUIDITY_THRESHOLD'' \<or> t = ''BAR_PRICE'' \<or>
     t = ''SPOT_PRICE'' \<or> t = ''ONE_OZ_BAR_RANGE'' \<or> t = ''HUNDRED_OZ_BAR_RANGE''"
  by (simp add: token_names_def)

lemma resolveToken_unavailable:
  "priceData = None \<or> (\<exists>p. priceData = Some p \<and> num_le (ask p) (Fin 0)) \<Longrightarrow>
   resolveToken tokenType priceData config = ''current market price''"
  by (auto simp: resolveToken_def split: prod.splits)

lemma resolveToken_unrecognized:
  "tokenType \<notin> set token_names \<Longrightarrow>
   resolveToken tokenType priceData config = ''current market price''"
  by (auto simp: resolveToken_def token_names_cases Let_def split: prod.splits option.splits)

lemma resolveToken_available:
  assumes "tokenType \<in> set token_names" and "priceData = Some p" and "\<not> num_le (ask p) (Fin 0)"
  shows "resolveToken tokenType priceData config \<noteq> ''current market price''"
  using assms(1) unfolding token_names_cases
  apply (elim disjE)
  using assms(2,3) format_currency_USD_not_fallback format_currency_USD_not_fallback [where s = "[]"]
         apply (simp_all add: resolveToken_def Let_def formatPrice_tilde formatPrice_empty
      split: prod.splits)
  done

subsection \<open>The reference scenario\<close>

text \<open>
  Claim C5. For the quote \<open>{ask: 30000}\<close> and the default configuration (band 5,
  increment 100), \<open>resolveToken\<close> gives \<open>~$30,000\<close> for \<open>CAPITAL_REQUIREMENT\<close>,
  \<open>~$28,500\<close>, an en dash and \<open>$31,500\<close> for \<open>CAPITAL_REQUIREMENT_RANGE\<close>, \<open>$30,000\<close> for
  \<open>BAR_PRICE\<close> and \<open>~$30\<close> for \<open>SPOT_PRICE\<close>. Every intermediate value of the scenario
  (300, 285, 315 and 29.70...) is far from a rounding boundary.
\<close>

theorem scenario_ask_30000:
  "resolveToken ''CAPITAL_REQUIREMENT'' (Some \<lparr>ask = Fin 30000\<rparr>)
     \<lparr>premiumBandPercent = None, roundingIncrement = None\<rparr> = ''~$30,000''
   \<and> resolveToken ''CAPITAL_REQUIREMENT_RANGE'' (Some \<lparr>ask = Fin 30000\<rparr>)
     \<lparr>premiumBandPercent = None, roundingIncrement = None\<rparr> = ''~$28,500'' @ en_dash @ ''$31,500''
   \<and> resolveToken ''BAR_PRICE'' (Some \<lparr>ask = Fin 30000\<rparr>)
     \<lparr>premiumBandPercent = None, roundingIncrement = None\<rparr> = ''$30,000''
   \<and> resolveToken ''SPOT_PRICE'' (Some \<lparr>ask = Fin 30000\<rparr>)
     \<lparr>premiumBandPercent = None, roundingIncrement = None\<rparr> = ''~$30''"
  by (simp add: resolve_defs num_defs digits.simps)

subsection \<open>Unavailable quotes\<close>

text \<open>
  Claim C2. For every configuration and every token type (the eight identifiers, and
  any other string), if the quote is missing or its \<open>ask\<close> satisfies \<open>ask <= 0\<close>, then
  \<open>resolveToken\<close> returns the fixed phrase \<open>current market price\<close>. The result depends
  neither on the value of \<open>ask\<close> nor on the configuration: the guard returns before any
  arithmetic, and the embedding, like the source, has no failing branch.
\<close>

theorem unavailable_quote_gives_fallback:
  assumes "priceData = None \<or> (\<exists>p. priceData = Some p \<and> num_le (ask p) (Fin 0))"
  shows "resolveToken tokenType priceData config = ''current market price''"
  using assms by (auto simp: resolveToken_def split: prod.splits)

theorem unavailable_quote_gives_fallback_witness:
  "resolveToken ''SPOT_PRICE'' None \<lparr>premiumBandPercent = None, roundingIncrement = None\<rparr>
     = ''current market price''
   \<and> num_le (ask \<lparr>ask = Fin (- 5)\<rparr>) (Fin 0)
   \<and> resolveToken ''ONE_OZ_BAR_RANGE'' (Some \<lparr>ask = Fin (- 5)\<rparr>)
        \<lparr>premiumBandPercent = Some (Fin 10), roundingIncrement = Some NaN\<rparr>
     = ''current market price''"
proof -
  have n: "num_le (ask \<lparr>ask = Fin (- 5)\<rparr>) (Fin 0)" by (simp add: num_le_def)
  have "resolveToken ''SPOT_PRICE'' None \<lparr>premiumBandPercent = None, roundingIncrement = None\<rparr>
     = ''current market price''"
    by (rule unavailable_quote_gives_fallback) simp
  moreover have "resolveToken ''ONE_OZ_BAR_RANGE'' (Some \<lparr>ask = Fin (- 5)\<rparr>)
        \<lparr>premiumBandPercent = Some (Fin 10), roundingIncrement = Some NaN\<rparr>
     = ''current market price''"
    by (rule unavailable_quote_gives_fallback) (use n in blast)
  ultimately show ?thesis using n by blast
qed

text \<open>
  Claim C3, as the specification states it: a quote whose \<open>ask\<close> is NaN or an infinity
  is treated as unavailable, for every token type. The guard of the source is
  \<open>!priceData || priceData.ask <= 0\<close>, and \<open>NaN <= 0\<close> is false: for \<open>ask = NaN\<close> and the
  default configuration \<open>CAPITAL_REQUIREMENT\<close> resolves to \<open>~$NaN\<close>.
\<close>

theorem nan_ask_is_not_unavailable:
  "resolveToken ''CAPITAL_REQUIREMENT'' (Some \<lparr>ask = NaN\<rparr>)
     \<lparr>premiumBandPercent = None, roundingIncrement = None\<rparr> = ''~$NaN''
   \<and> resolveToken ''CAPITAL_REQUIREMENT'' (Some \<lparr>ask = NaN\<rparr>)
     \<lparr>premiumBandPercent = None, roundingIncrement = None\<rparr> \<noteq> ''current market price''"
  by (simp add: resolve_defs num_defs)

text \<open>
  Claim C3, amended. A quote whose \<open>ask\<close> is \<open>-Infinity\<close> passes the guard \<open>ask <= 0\<close>
  and resolves to the fallback phrase for every token type and configuration. A quote
  whose \<open>ask\<close> is NaN or \<open>+Infinity\<close> does not: it is treated as available, the value
  enters the derivation, and every one of the eight token types resolves to a
  formatted string that is not the fallback phrase; under the default configuration
  \<open>CAPITAL_REQUIREMENT\<close> gives \<open>~$NaN\<close> and \<open>~$\<close> followed by the infinity sign.
\<close>

theorem nonfinite_ask_resolution:
  "resolveToken tokenType (Some \<lparr>ask = NegInf\<rparr>) config = ''current market price''
   \<and> (tokenType \<in> set token_names \<longrightarrow>
        resolveToken tokenType (Some \<lparr>ask = NaN\<rparr>) config \<noteq> ''current market price''
      \<and> resolveToken tokenType (Some \<lparr>ask = PosInf\<rparr>) config \<noteq> ''current market price'')
   \<and> resolveToken ''CAPITAL_REQUIREMENT'' (Some \<lparr>ask = NaN\<rparr>)
        \<lparr>premiumBandPercent = None, roundingIncrement = None\<rparr> = ''~$NaN''
   \<and> resolveToken ''CAPITAL_REQUIREMENT'' (Some \<lparr>ask = PosInf\<rparr>)
        \<lparr>premiumBandPercent = None, roundingIncrement = None\<rparr> = ''~$'' @ infinity_sign"
proof (intro conjI impI)
  show "resolveToken tokenType (Some \<lparr>ask = NegInf\<rparr>) config = ''current market price''"
    by (rule resolveToken_unavailable) (simp add: num_le_def)
next
  assume t: "tokenType \<in> set token_names"
  show "resolveToken tokenType (Some \<lparr>ask = NaN\<rparr>) config \<noteq> ''current market price''"
    by (rule resolveToken_available [OF t refl]) (simp add: num_le_def)
  show "resolveToken tokenType (Some \<lparr>ask = PosInf\<rparr>) config \<noteq> ''current market price''"
    by (rule resolveToken_available [OF t refl]) (simp add: num_le_def)
next
  show "resolveToken ''CAPITAL_REQUIREMENT'' (Some \<lparr>ask = NaN\<rparr>)
        \<lparr>premiumBandPercent = None, roundingIncrement = None\<rparr> = ''~$NaN''"
    by (simp add: resolve_defs num_defs)
  show "resolveToken ''CAPITAL_REQUIREMENT'' (Some \<lparr>ask = PosInf\<rparr>)
        \<lparr>premiumBandPercent = None, roundingIncrement = None\<rparr> = ''~$'' @ infinity_sign"
    by (simp add: resolve_defs num_defs)
qed

theorem nonfinite_ask_resolution_witness:
  "''BAR_PRICE'' \<in> set token_names
   \<and> resolveToken ''BAR_PRICE'' (Some \<lparr>ask = NaN\<rparr>)
        \<lparr>premiumBandPercent = None, roundingIncrement = None\<rparr> \<noteq> ''current market price''
   \<and> resolveToken ''BAR_PRICE'' (Some \<lparr>ask = PosInf\<rparr>)
        \<lparr>premiumBandPercent = None, roundingIncrement = None\<rparr> \<noteq> ''current market price''
   \<and> resolveToken ''BAR_PRICE'' (Some \<lparr>ask = NegInf\<rparr>)
        \<lparr>premiumBandPercent = None, roundingIncrement = None\<rparr> = ''current market price''"
proof -
  have m: "''BAR_PRICE'' \<in> set token_names" by (simp add: token_names_def)
  with nonfinite_ask_resolution [of "''BAR_PRICE''"
      "\<lparr>premiumBandPercent = None, roundingIncrement = None\<rparr>"]
  show ?thesis by blast
qed

subsection \<open>The fallback phrase as a signal\<close>

text \<open>
  Claim C10. \<open>resolveToken\<close> returns the phrase \<open>current market price\<close> if and only if
  the quote is missing, or its \<open>ask\<close> satisfies \<open>ask <= 0\<close>, or the token type is not one
  of the eight identifiers. In particular, for a quote with \<open>ask > 0\<close>, any
  configuration and any of the eight token types, the resolved string is not the
  fallback phrase.
\<close>

theorem fallback_iff_unavailable_or_unrecognized:
  "(resolveToken tokenType priceData config = ''current market price'' \<longleftrightarrow>
      priceData = None \<or> (\<exists>p. priceData = Some p \<and> num_le (ask p) (Fin 0)) \<or>
      tokenType \<notin> set token_names)
   \<and> (tokenType \<in> set token_names \<longrightarrow> 0 < a \<longrightarrow>
        resolveToken tokenType (Some \<lparr>ask = Fin a\<rparr>) config \<noteq> ''current market price'')"
proof (intro conjI impI iffI)
  assume "resolveToken tokenType priceData config = ''current market price''"
  then show "priceData = None \<or> (\<exists>p. priceData = Some p \<and> num_le (ask p) (Fin 0)) \<or>
      tokenType \<notin> set token_names"
    using resolveToken_available [of tokenType priceData _ config] by (cases priceData) auto
next
  assume "priceData = None \<or> (\<exists>p. priceData = Some p \<and> num_le (ask p) (Fin 0)) \<or>
      tokenType \<notin> set token_names"
  then show "resolveToken tokenType priceData config = ''current market price''"
    using resolveToken_unavailable [of priceData tokenType config]
      resolveToken_unrecognized [of tokenType priceData config] by blast
next
  assume t: "tokenType \<in> set token_names" and a: "0 < a"
  show "resolveToken tokenType (Some \<lparr>ask = Fin a\<rparr>) config \<noteq> ''current market price''"
    by (rule resolveToken_available [OF t refl]) (use a in \<open>simp add: num_le_def\<close>)
qed

theorem fallback_iff_unavailable_or_unrecognized_witness:
  "''LIQUIDITY_THRESHOLD'' \<in> set token_names \<and> (0::real) < 30000
   \<and> resolveToken ''LIQUIDITY_THRESHOLD'' (Some \<lparr>ask = Fin 30000\<rparr>)
        \<lparr>premiumBandPercent = None, roundingIncrement = None\<rparr> \<noteq> ''current market price''
   \<and> resolveToken ''NOT_A_TOKEN'' (Some \<lparr>ask = Fin 30000\<rparr>)
        \<lparr>premiumBandPercent = None, roundingIncrement = None\<rparr> = ''current market price''"
proof -
  have m: "''LIQUIDITY_THRESHOLD'' \<in> set token_names" and p: "(0::real) < 30000"
    and n: "''NOT_A_TOKEN'' \<notin> set token_names"
    by (simp_all add: token_names_def)
  from fallback_iff_unavailable_or_unrecognized [of "''LIQUIDITY_THRESHOLD''" _
      "\<lparr>premiumBandPercent = None, roundingIncrement = None\<rparr>" 30000] m p
  have 1: "resolveToken ''LIQUIDITY_THRESHOLD'' (Some \<lparr>ask = Fin 30000\<rparr>)
        \<lparr>premiumBandPercent = None, roundingIncrement = None\<rparr> \<noteq> ''current market price''"
    by blast
  from fallback_iff_unavailable_or_unrecognized [of "''NOT_A_TOKEN''"
      "Some \<lparr>ask = Fin 30000\<rparr>" "\<lparr>premiumBandPercent = None, roundingIncrement = None\<rparr>"] n
  have 2: "resolveToken ''NOT_A_TOKEN'' (Some \<lparr>ask = Fin 30000\<rparr>)
        \<lparr>premiumBandPercent = None, roundingIncrement = None\<rparr> = ''current market price''"
    by blast
  from m p 1 2 show ?thesis by blast
qed

subsection \<open>No brace syntax in a resolved value\<close>

text \<open>
  Claim C8. For each of the eight token types, every quote with \<open>ask > 0\<close> and every
  configuration, \<open>resolveToken\<close> returns a string (the embedding is total, as the source
  has no throwing path) that contains neither \<open>{{\<close> nor \<open>}}\<close>. The theorem is stated
  without the hypotheses of the claim, which it does not need: it holds for every
  token type, quote and configuration.
\<close>

theorem resolved_value_has_no_brace_syntax:
  "\<not> sublist ''{{'' (resolveToken tokenType priceData config)
   \<and> \<not> sublist ''}}'' (resolveToken tokenType priceData config)"
  using no_braces_resolveToken [of tokenType priceData config]
  by (auto simp: no_braces_def sublist_def)

subsection \<open>Rounding to an increment\<close>



subsection \<open>The range tokens\<close>






subsection \<open>Facts about the scanner\<close>

lemma token_names_distinct: "distinct token_names"
  by (simp add: token_names_def)

lemma token_name_no_open_brace: "n \<in> set token_names \<Longrightarrow> CHR ''{'' \<notin> set (n @ ''}}'')"
  by (auto simp: token_names_cases)

lemma token_name_nonempty: "n \<in> set token_names \<Longrightarrow> n \<noteq> []"
  by (auto simp: token_names_cases)

lemma try_alternatives_Some:
  "try_alternatives ns s = Some (g, r) \<Longrightarrow> g \<in> set ns \<and> s = g @ ''}}'' @ r"
proof (induction ns)
  case Nil
  then show ?case by simp
next
  case (Cons n ns)
  show ?case
  proof (cases "prefix (n @ ''}}'') s")
    case True
    then obtain zs where "s = (n @ ''}}'') @ zs" by (auto simp: prefix_def)
    with True Cons.prems show ?thesis by auto
  next
    case False
    with Cons show ?thesis by auto
  qed
qed

lemma match_here_Some:
  assumes "match_here s = Some (g, r)"
  shows "g \<in> set token_names \<and> s = token_text g @ r"
proof -
  from assms have p: "prefix ''{{'' s" and t: "try_alternatives token_names (drop 2 s) = Some (g, r)"
    by (auto simp: match_here_def split: if_splits)
  from p obtain zs where s: "s = ''{{'' @ zs" by (auto simp: prefix_def)
  with try_alternatives_Some [OF t] show ?thesis by (simp add: token_text_def)
qed

lemma match_here_token:
  "n \<in> set token_names \<Longrightarrow> match_here (token_text n @ r) = Some (n, r)"
  unfolding token_names_cases
  by (elim disjE) (simp_all add: match_here_def token_text_def token_names_def)

lemma match_here_None_iff:
  "match_here s = None \<longleftrightarrow> (\<forall>n \<in> set token_names. \<not> prefix (token_text n) s)"
proof
  assume m: "match_here s = None"
  show "\<forall>n \<in> set token_names. \<not> prefix (token_text n) s"
  proof (intro ballI notI)
    fix n assume "n \<in> set token_names" and "prefix (token_text n) s"
    then obtain r where "s = token_text n @ r" and "n \<in> set token_names"
      by (auto simp: prefix_def)
    with match_here_token [of n r] m show False by simp
  qed
next
  assume a: "\<forall>n \<in> set token_names. \<not> prefix (token_text n) s"
  show "match_here s = None"
  proof (cases "match_here s")
    case None
    then show ?thesis .
  next
    case (Some x)
    obtain g r where "x = (g, r)" by (cases x)
    with Some match_here_Some [of s g r] a show ?thesis by (auto simp: prefix_def)
  qed
qed

lemma filter_single:
  "distinct xs \<Longrightarrow> g \<in> set xs \<Longrightarrow> (\<And>n. n \<in> set xs \<Longrightarrow> P n = (n = g)) \<Longrightarrow> filter P xs = [g]"
proof (induction xs)
  case Nil
  then show ?case by simp
next
  case (Cons x xs)
  show ?case
  proof (cases "x = g")
    case True
    with Cons.prems have "filter P xs = []"
      by (auto simp: filter_empty_conv)
    with True Cons.prems(3) [of x] show ?thesis by simp
  next
    case False
    with Cons.prems have "filter P xs = [g]" by (intro Cons.IH) auto
    with False Cons.prems(3) [of x] show ?thesis by simp
  qed
qed

text \<open>At most one identifier has an occurrence at a given position, and it is the one
  the match attempt finds.\<close>

lemma occurrences_here_match:
  "occurrences_here s = (case match_here s of None \<Rightarrow> [] | Some (g, r) \<Rightarrow> [g])"
proof (cases "match_here s")
  case None
  then have "\<forall>n \<in> set token_names. \<not> prefix (token_text n) s"
    by (simp add: match_here_None_iff)
  with None show ?thesis by (simp add: occurrences_here_def filter_empty_conv)
next
  case (Some x)
  obtain g r where x: "x = (g, r)" by (cases x)
  from Some x match_here_Some [of s g r] have g: "g \<in> set token_names" and s: "s = token_text g @ r"
    by simp_all
  have "prefix (token_text n) s = (n = g)" if "n \<in> set token_names" for n
  proof
    assume "prefix (token_text n) s"
    then obtain r' where "s = token_text n @ r'" by (auto simp: prefix_def)
    with match_here_token [OF that, of r'] Some x show "n = g" by simp
  next
    assume "n = g"
    with s show "prefix (token_text n) s" by simp
  qed
  with filter_single [OF token_names_distinct g, of "\<lambda>n. prefix (token_text n) s"] Some x
  show ?thesis by (simp add: occurrences_here_def)
qed

lemma occurrences_here_not_brace:
  "CHR ''{'' \<noteq> c \<Longrightarrow> occurrences_here (c # cs) = []"
  by (simp add: occurrences_here_def token_text_def filter_empty_conv)

lemma occurrences_here_one_brace:
  "CHR ''{'' \<noteq> c \<Longrightarrow> occurrences_here (d # c # cs) = []"
  by (simp add: occurrences_here_def token_text_def filter_empty_conv)

lemma occurrences_here_append:
  "occurrences_here (s @ t) = [] \<Longrightarrow> occurrences_here s = []"
  by (auto simp: occurrences_here_def filter_empty_conv)

lemma tokens_by_position_Nil [simp]: "tokens_by_position [] = []"
  by (simp add: tokens_by_position_def)

lemma tokens_by_position_Cons:
  "tokens_by_position (c # cs) = occurrences_here (c # cs) @ tokens_by_position cs"
proof -
  have "[0..<Suc (length cs)] = 0 # map Suc [0..<length cs]"
    by (simp add: upt_conv_Cons map_Suc_upt del: upt_Suc)
  then show ?thesis
    by (simp add: tokens_by_position_def comp_def del: upt_Suc)
qed

lemma token_free_Cons:
  "token_free (c # cs) = (occurrences_here (c # cs) = [] \<and> token_free cs)"
  by (simp add: token_free_def tokens_by_position_Cons)

lemma tokens_by_position_skip:
  "CHR ''{'' \<notin> set xs \<Longrightarrow> tokens_by_position (xs @ r) = tokens_by_position r"
  by (induction xs) (simp_all add: tokens_by_position_Cons occurrences_here_not_brace)

text \<open>Occurrences do not overlap: behind the first character of an occurrence, the next
  one starts after its last character at the earliest.\<close>

lemma tokens_by_position_token:
  assumes "g \<in> set token_names"
  shows "tokens_by_position (token_text g @ r) = g # tokens_by_position r"
proof -
  from token_name_nonempty [OF assms] obtain c cs where g: "g = c # cs" by (cases g) auto
  from token_name_no_open_brace [OF assms] g have c: "CHR ''{'' \<noteq> c" by auto
  have 1: "occurrences_here (token_text g @ r) = [g]"
    by (simp add: occurrences_here_match match_here_token [OF assms])
  have 2: "occurrences_here (CHR ''{'' # g @ ''}}'' @ r) = []"
    unfolding g using occurrences_here_one_brace [OF c] by simp
  have 3: "tokens_by_position ((g @ ''}}'') @ r) = tokens_by_position r"
    by (rule tokens_by_position_skip [OF token_name_no_open_brace [OF assms]])
  have e: "token_text g @ r = CHR ''{'' # (CHR ''{'' # g @ ''}}'' @ r)"
    by (simp add: token_text_def)
  have "tokens_by_position (token_text g @ r)
          = occurrences_here (token_text g @ r) @ tokens_by_position (CHR ''{'' # g @ ''}}'' @ r)"
    using tokens_by_position_Cons [of "CHR ''{''" "CHR ''{'' # g @ ''}}'' @ r"]
    by (simp only: e)
  also have "tokens_by_position (CHR ''{'' # g @ ''}}'' @ r) = tokens_by_position r"
    using 2 3 by (simp add: tokens_by_position_Cons)
  finally show ?thesis by (simp add: 1)
qed

text \<open>What one \<open>exec\<close> finds: nothing in a text without occurrence; otherwise the first
  occurrence by position, behind a skipped text without occurrence.\<close>

lemma regex_exec_None: "regex_exec s = None \<Longrightarrow> token_free s"
proof (induction s)
  case Nil
  then show ?case by (simp add: token_free_def)
next
  case (Cons c cs)
  from Cons.prems have m: "match_here (c # cs) = None" and "regex_exec cs = None"
    by (auto split: option.splits)
  with Cons.IH show ?case by (simp add: token_free_Cons occurrences_here_match)
qed

lemma regex_exec_Some:
  "regex_exec s = Some (skipped, g, r) \<Longrightarrow>
     g \<in> set token_names \<and> s = skipped @ token_text g @ r \<and> token_free skipped \<and>
     tokens_by_position s = g # tokens_by_position r"
proof (induction s arbitrary: skipped)
  case Nil
  then show ?case by simp
next
  case (Cons c cs)
  show ?case
  proof (cases "match_here (c # cs)")
    case (Some x)
    with Cons.prems have m: "match_here (c # cs) = Some (g, r)" and sk: "skipped = []"
      by (cases x; auto)+
    from match_here_Some [OF m] tokens_by_position_token [of g r] sk
    show ?thesis by (simp add: token_free_def)
  next
    case None
    with Cons.prems obtain sk' where e: "regex_exec cs = Some (sk', g, r)" and sk: "skipped = c # sk'"
      by (auto split: option.splits)
    from Cons.IH [OF e] have g: "g \<in> set token_names" and cs: "cs = sk' @ token_text g @ r"
      and f: "token_free sk'" and t: "tokens_by_position cs = g # tokens_by_position r"
      by blast+
    from None have o: "occurrences_here (c # cs) = []" by (simp add: occurrences_here_match)
    then have "occurrences_here ((c # sk') @ token_text g @ r) = []" by (simp add: cs)
    then have "occurrences_here (c # sk') = []" by (rule occurrences_here_append)
    with g f o sk have "g \<in> set token_names" and "token_free skipped"
      and "tokens_by_position (c # cs) = g # tokens_by_position r"
      by (simp_all add: token_free_Cons tokens_by_position_Cons t)
    moreover from cs sk have "c # cs = skipped @ token_text g @ r" by simp
    ultimately show ?thesis by blast
  qed
qed

lemma token_free_regex_exec: "token_free s \<Longrightarrow> regex_exec s = None"
proof (cases "regex_exec s")
  case None
  then show ?thesis by simp
next
  case (Some x)
  assume f: "token_free s"
  obtain sk g r where "x = (sk, g, r)" by (cases x)
  with Some regex_exec_Some [of s sk g r] have "tokens_by_position s = g # tokens_by_position r"
    by blast
  with f show ?thesis by (simp add: token_free_def)
qed

lemma prefix_before_char:
  "prefix xs (ds @ y # ys) \<Longrightarrow> y \<notin> set xs \<Longrightarrow> prefix xs ds"
  by (auto simp: prefix_append prefix_Cons)

text \<open>A literal without occurrence in front of an occurrence is skipped as a whole: no
  occurrence straddles the border.\<close>

lemma match_here_straddle:
  assumes "occurrences_here (c # cs) = []" and "n \<in> set token_names"
  shows "match_here ((c # cs) @ token_text n @ r) = None"
proof (cases "match_here ((c # cs) @ token_text n @ r)")
  case None
  then show ?thesis .
next
  case (Some x)
  obtain g r' where x: "x = (g, r')" by (cases x)
  from Some x match_here_Some [of _ g r']
  have g: "g \<in> set token_names" and e: "(c # cs) @ token_text n @ r = token_text g @ r'"
    by simp_all
  from token_name_nonempty [OF g] obtain a as where ga: "g = a # as" by (cases g) auto
  from token_name_no_open_brace [OF g] have nb: "CHR ''{'' \<notin> set (g @ ''}}'')" .
  show ?thesis
  proof (cases cs)
    case Nil
    with e ga nb show ?thesis by (auto simp: token_text_def)
  next
    case (Cons d ds)
    with e have c: "c = CHR ''{''" and d: "d = CHR ''{''"
      and t: "ds @ CHR ''{'' # CHR ''{'' # n @ ''}}'' @ r = (g @ ''}}'') @ r'"
      by (simp_all add: token_text_def)
    from t have "prefix (g @ ''}}'') (ds @ CHR ''{'' # CHR ''{'' # n @ ''}}'' @ r)"
      by (metis prefixI)
    from prefix_before_char [OF this nb] have "prefix (token_text g) (c # cs)"
      by (simp add: c d Cons token_text_def)
    with g assms(1) show ?thesis by (auto simp: occurrences_here_def filter_empty_conv)
  qed
qed

lemma regex_exec_literal_token:
  "token_free l \<Longrightarrow> n \<in> set token_names \<Longrightarrow> regex_exec (l @ token_text n @ r) = Some (l, n, r)"
proof (induction l)
  case Nil
  have "token_text n @ r = CHR ''{'' # CHR ''{'' # n @ ''}}'' @ r" by (simp add: token_text_def)
  with match_here_token [OF Nil.prems(2), of r] show ?case by simp
next
  case (Cons c cs)
  from Cons.prems(1) have o: "occurrences_here (c # cs) = []" and f: "token_free cs"
    by (simp_all add: token_free_Cons)
  from match_here_straddle [OF o Cons.prems(2), of r] Cons.IH [OF f Cons.prems(2)]
  show ?case by simp
qed

lemma exec_loop_None: "regex_exec s = None \<Longrightarrow> exec_loop step s acc = (acc, s)"
  by (subst exec_loop.simps) simp

lemma exec_loop_Some:
  "regex_exec s = Some (skipped, g, r) \<Longrightarrow>
   exec_loop step s acc = exec_loop step r (step acc skipped g)"
  by (subst exec_loop.simps) simp

lemma exec_loop_tokens:
  "fst (exec_loop (\<lambda>tokens skipped g. tokens @ [g]) s acc) = acc @ tokens_by_position s"
proof (induction s arbitrary: acc rule: length_induct)
  case (1 s)
  show ?case
  proof (cases "regex_exec s")
    case None
    with regex_exec_None [OF None] show ?thesis
      by (simp add: exec_loop_None token_free_def)
  next
    case (Some x)
    obtain sk g r where x: "x = (sk, g, r)" by (cases x)
    from Some x regex_exec_Some [of s sk g r]
    have s: "s = sk @ token_text g @ r" and t: "tokens_by_position s = g # tokens_by_position r"
      by blast+
    from s have "length r < length s" by (simp add: token_text_def)
    with "1.IH" have "fst (exec_loop (\<lambda>tokens skipped g. tokens @ [g]) r (acc @ [g]))
                        = (acc @ [g]) @ tokens_by_position r" by blast
    with Some x t show ?thesis by (simp add: exec_loop_Some)
  qed
qed

lemma exec_loop_cut:
  assumes "well_cut l0 ps"
  shows "(case exec_loop (\<lambda>out skipped t. out @ skipped @ f t) (source_text l0 ps) acc of
            (out, remaining) \<Rightarrow> out @ remaining) = acc @ substituted_text f l0 ps"
  using assms
proof (induction ps arbitrary: l0 acc)
  case Nil
  then have "regex_exec l0 = None" by (simp add: well_cut_def token_free_regex_exec)
  then show ?case by (simp add: source_text_def substituted_text_def exec_loop_None)
next
  case (Cons p ps)
  obtain n l where p: "p = (n, l)" by (cases p)
  from Cons.prems p have f0: "token_free l0" and n: "n \<in> set token_names" and w: "well_cut l ps"
    by (simp_all add: well_cut_def)
  have s: "source_text l0 (p # ps) = l0 @ token_text n @ source_text l ps"
    by (simp add: source_text_def p)
  have "regex_exec (source_text l0 (p # ps)) = Some (l0, n, source_text l ps)"
    unfolding s by (rule regex_exec_literal_token [OF f0 n])
  then have "exec_loop (\<lambda>out skipped t. out @ skipped @ f t) (source_text l0 (p # ps)) acc
               = exec_loop (\<lambda>out skipped t. out @ skipped @ f t) (source_text l ps) (acc @ l0 @ f n)"
    by (rule exec_loop_Some)
  with Cons.IH [OF w, of "acc @ l0 @ f n"] show ?case
    by (simp add: substituted_text_def p)
qed

lemma cut_exists: "\<exists>l0 ps. well_cut l0 ps \<and> source_text l0 ps = s"
proof (induction s rule: length_induct)
  case (1 s)
  show ?case
  proof (cases "regex_exec s")
    case None
    from regex_exec_None [OF None] have "well_cut s [] \<and> source_text s [] = s"
      by (simp add: well_cut_def source_text_def)
    then show ?thesis by blast
  next
    case (Some x)
    obtain sk g r where x: "x = (sk, g, r)" by (cases x)
    from Some x regex_exec_Some [of s sk g r]
    have g: "g \<in> set token_names" and s: "s = sk @ token_text g @ r" and f: "token_free sk"
      by blast+
    from s have "length r < length s" by (simp add: token_text_def)
    with "1.IH" obtain l ps where w: "well_cut l ps" and r: "source_text l ps = r" by blast
    from g f w have "well_cut sk ((g, l) # ps)" by (simp add: well_cut_def)
    moreover from s r have "source_text sk ((g, l) # ps) = s" by (simp add: source_text_def)
    ultimately show ?thesis by blast
  qed
qed

lemma tokens_by_position_literal:
  "token_free l \<Longrightarrow> tokens_by_position (l @ token_text n @ r) = tokens_by_position (token_text n @ r)"
  if "n \<in> set token_names"
proof (induction l)
  case Nil
  then show ?case by simp
next
  case (Cons c cs)
  from Cons.prems have o: "occurrences_here (c # cs) = []" and f: "token_free cs"
    by (simp_all add: token_free_Cons)
  from match_here_straddle [OF o that, of r]
  have "occurrences_here ((c # cs) @ token_text n @ r) = []"
    by (simp add: occurrences_here_match)
  with Cons.IH [OF f] show ?case by (simp add: tokens_by_position_Cons)
qed

lemma tokens_by_position_cut:
  "well_cut l0 ps \<Longrightarrow> tokens_by_position (source_text l0 ps) = map fst ps"
proof (induction ps arbitrary: l0)
  case Nil
  then show ?case by (simp add: well_cut_def source_text_def token_free_def)
next
  case (Cons p ps)
  obtain n l where p: "p = (n, l)" by (cases p)
  from Cons.prems p have f0: "token_free l0" and n: "n \<in> set token_names" and w: "well_cut l ps"
    by (simp_all add: well_cut_def)
  have s: "source_text l0 (p # ps) = l0 @ token_text n @ source_text l ps"
    by (simp add: source_text_def p)
  have "tokens_by_position (source_text l0 (p # ps)) = tokens_by_position (token_text n @ source_text l ps)"
    unfolding s by (rule tokens_by_position_literal [OF n f0])
  also have "\<dots> = n # tokens_by_position (source_text l ps)"
    by (rule tokens_by_position_token [OF n])
  finally show ?case by (simp add: Cons.IH [OF w] p)
qed

subsection \<open>Substitution\<close>

text \<open>
  Claim C1. For every text, quote and configuration, \<open>replaceTokens\<close> replaces every
  well-formed occurrence of one of the eight identifiers by the value of \<open>resolveToken\<close>
  for it, and keeps everything else as it is and in its order: when the text is cut
  into literals without occurrence and the occurrences between them, the result is
  the same sequence with each occurrence replaced by its resolved value, and the
  occurrences of the text are exactly those of the cut. Every text has such a cut.
  In particular a text without occurrence is returned unchanged, and so is
  \<open>{{NOT_A_TOKEN}}\<close>, braces included.
\<close>

theorem replaceTokens_substitutes_occurrences:
  "(well_cut l0 ps \<longrightarrow>
      replaceTokens (source_text l0 ps) priceData config
        = substituted_text (\<lambda>n. resolveToken n priceData config) l0 ps
    \<and> tokens_by_position (source_text l0 ps) = map fst ps)
   \<and> (\<exists>l ps'. well_cut l ps' \<and> source_text l ps' = text)
   \<and> (token_free text \<longrightarrow> replaceTokens text priceData config = text)
   \<and> token_free ''{{NOT_A_TOKEN}}''
   \<and> replaceTokens ''{{NOT_A_TOKEN}}'' priceData config = ''{{NOT_A_TOKEN}}''"
proof -
  have unchanged: "replaceTokens s priceData config = s" if "token_free s" for s
    using token_free_regex_exec [OF that] by (simp add: replaceTokens_def exec_loop_None)
  have cut: "replaceTokens (source_text l0 ps) priceData config
               = substituted_text (\<lambda>n. resolveToken n priceData config) l0 ps" if "well_cut l0 ps"
    using exec_loop_cut [OF that, of "\<lambda>n. resolveToken n priceData config" "[]"]
    by (simp add: replaceTokens_def split: prod.splits)
  have example: "token_free ''{{NOT_A_TOKEN}}''"
    by (simp add: token_free_def tokens_by_position_Cons occurrences_here_def token_text_def
        token_names_def)
  from unchanged [OF example] unchanged [of "text"] cut example
    tokens_by_position_cut [of l0 ps] cut_exists [of "text"]
  show ?thesis by blast
qed

theorem replaceTokens_substitutes_occurrences_witness:
  "well_cut ''Costs '' [(''CAPITAL_REQUIREMENT'', '' or {{NOPE}} and ''), (''BAR_PRICE'', ''.'')]
   \<and> source_text ''Costs '' [(''CAPITAL_REQUIREMENT'', '' or {{NOPE}} and ''), (''BAR_PRICE'', ''.'')]
       = ''Costs {{CAPITAL_REQUIREMENT}} or {{NOPE}} and {{BAR_PRICE}}.''
   \<and> replaceTokens ''Costs {{CAPITAL_REQUIREMENT}} or {{NOPE}} and {{BAR_PRICE}}.''
        (Some \<lparr>ask = Fin 30000\<rparr>) \<lparr>premiumBandPercent = None, roundingIncrement = None\<rparr>
       = ''Costs ~$30,000 or {{NOPE}} and $30,000.''
   \<and> token_free ''no token here: {{ }} {CAPITAL_REQUIREMENT}''
   \<and> replaceTokens ''no token here: {{ }} {CAPITAL_REQUIREMENT}''
        None \<lparr>premiumBandPercent = None, roundingIncrement = None\<rparr>
       = ''no token here: {{ }} {CAPITAL_REQUIREMENT}''"
proof -
  let ?cfg = "\<lparr>premiumBandPercent = None, roundingIncrement = None\<rparr>"
  let ?q = "Some \<lparr>ask = Fin 30000\<rparr>"
  let ?ps = "[(''CAPITAL_REQUIREMENT'', '' or {{NOPE}} and ''), (''BAR_PRICE'', ''.'')]"
  have free: "token_free ''Costs ''" "token_free '' or {{NOPE}} and ''" "token_free ''.''"
    "token_free ''no token here: {{ }} {CAPITAL_REQUIREMENT}''"
    by (simp_all add: token_free_def tokens_by_position_Cons occurrences_here_def token_text_def
        token_names_def)
  then have w: "well_cut ''Costs '' ?ps"
    by (simp add: well_cut_def token_names_def)
  have s: "source_text ''Costs '' ?ps = ''Costs {{CAPITAL_REQUIREMENT}} or {{NOPE}} and {{BAR_PRICE}}.''"
    by (simp add: source_text_def token_text_def)
  have r: "resolveToken ''CAPITAL_REQUIREMENT'' ?q ?cfg = ''~$30,000''"
    "resolveToken ''BAR_PRICE'' ?q ?cfg = ''$30,000''"
    by (simp_all add: resolve_defs num_defs digits.simps)
  have t: "substituted_text (\<lambda>n. resolveToken n ?q ?cfg) ''Costs '' ?ps
             = ''Costs ~$30,000 or {{NOPE}} and $30,000.''"
    by (simp add: substituted_text_def r)
  from replaceTokens_substitutes_occurrences [of "''Costs ''" ?ps ?q ?cfg] w
  have "replaceTokens (source_text ''Costs '' ?ps) ?q ?cfg
          = substituted_text (\<lambda>n. resolveToken n ?q ?cfg) ''Costs '' ?ps" by blast
  then have 1: "replaceTokens ''Costs {{CAPITAL_REQUIREMENT}} or {{NOPE}} and {{BAR_PRICE}}.'' ?q ?cfg
          = ''Costs ~$30,000 or {{NOPE}} and $30,000.''"
    by (simp only: s t)
  from replaceTokens_substitutes_occurrences
    [of _ _ None ?cfg "''no token here: {{ }} {CAPITAL_REQUIREMENT}''"] free(4)
  have 2: "replaceTokens ''no token here: {{ }} {CAPITAL_REQUIREMENT}'' None ?cfg
       = ''no token here: {{ }} {CAPITAL_REQUIREMENT}''" by blast
  from w s 1 2 free(4) show ?thesis by blast
qed

subsection \<open>The queries\<close>

text \<open>
  Claim C9. For every text, \<open>findTokens\<close> returns the recognized identifiers whose
  well-formed occurrences appear in the text, one entry per occurrence, in the order
  of their start positions; and \<open>hasTokens\<close> answers true exactly when that sequence is
  not empty, whatever \<open>lastIndex\<close> the shared pattern had before the call.
\<close>

theorem findTokens_lists_occurrences:
  "findTokens text = tokens_by_position text
   \<and> set (findTokens text) \<subseteq> set token_names
   \<and> (fst (hasTokens lastIndex text) \<longleftrightarrow> findTokens text \<noteq> [])"
proof -
  have f: "findTokens text = tokens_by_position text"
    using exec_loop_tokens [of "text" "[]"] by (simp add: findTokens_def)
  have "set (tokens_by_position text) \<subseteq> set token_names"
    by (auto simp: tokens_by_position_def occurrences_here_def)
  moreover have "fst (hasTokens lastIndex text) \<longleftrightarrow> tokens_by_position text \<noteq> []"
  proof (cases "regex_exec text")
    case None
    with regex_exec_None [OF None] show ?thesis
      by (simp add: hasTokens_def regex_test_def token_free_def)
  next
    case (Some x)
    obtain sk g r where "x = (sk, g, r)" by (cases x)
    with Some regex_exec_Some [of "text" sk g r] show ?thesis
      by (auto simp: hasTokens_def regex_test_def)
  qed
  ultimately show ?thesis using f by simp
qed

theorem findTokens_lists_occurrences_witness:
  "tokens_by_position ''a {{BAR_PRICE}}{{NOPE}} {{{SPOT_PRICE}}{{BAR_PRICE}''
     = [''BAR_PRICE'', ''SPOT_PRICE'']
   \<and> findTokens ''a {{BAR_PRICE}}{{NOPE}} {{{SPOT_PRICE}}{{BAR_PRICE}''
     = [''BAR_PRICE'', ''SPOT_PRICE'']
   \<and> fst (hasTokens 7 ''a {{BAR_PRICE}}{{NOPE}} {{{SPOT_PRICE}}{{BAR_PRICE}'')"
proof -
  have t: "tokens_by_position ''a {{BAR_PRICE}}{{NOPE}} {{{SPOT_PRICE}}{{BAR_PRICE}''
     = [''BAR_PRICE'', ''SPOT_PRICE'']"
    by (simp add: tokens_by_position_Cons occurrences_here_def token_text_def token_names_def)
  with findTokens_lists_occurrences [of "''a {{BAR_PRICE}}{{NOPE}} {{{SPOT_PRICE}}{{BAR_PRICE}''" 7]
  show ?thesis by simp
qed

end
